theory Spec2Isabelle
  imports Complex_Main
begin

section \<open>The mock document processor of streamlit\_app.py\<close>

text \<open>
  The embedding follows \<^verbatim>\<open>src/streamlit_app.py\<close>: the class
  \<^verbatim>\<open>MockDocumentProcessor\<close> and the part of \<^verbatim>\<open>main\<close> that runs once a
  document's text has been extracted (lines 109 to 134).

  A Python \<^verbatim>\<open>str\<close> is modelled as a \<^typ>\<open>string\<close>. A \<^verbatim>\<open>dict\<close> keeps its
  insertion order, and both \<^verbatim>\<open>max\<close> and \<^verbatim>\<open>sorted\<close> observe it, so a dict is an
  association list in insertion order. The scores are Python floats that are only
  written as two-digit decimal literals, compared and printed, never combined with
  one another; distinct literals denote distinct doubles in the same order, so they
  are modelled as rationals.
\<close>

subsection \<open>Strings\<close>

text \<open>
  \<^verbatim>\<open>str.lower()\<close>: the letters A to Z go to a to z. Every other character is left
  alone: a text is a list of 8-bit characters here, and the keywords tested below are
  ASCII letters only.
\<close>

definition lower_char :: "char \<Rightarrow> char" where
  "lower_char c =
     (case map_of (zip ''ABCDEFGHIJKLMNOPQRSTUVWXYZ'' ''abcdefghijklmnopqrstuvwxyz'') c of
        None \<Rightarrow> c
      | Some l \<Rightarrow> l)"

definition lower :: "string \<Rightarrow> string" where
  "lower text = map lower_char text"

text \<open>\<^verbatim>\<open>text.startswith(sub)\<close>, the helper of the substring test.\<close>

fun startswith :: "string \<Rightarrow> string \<Rightarrow> bool" where
  "startswith text [] = True"
| "startswith [] (p # ps) = False"
| "startswith (c # cs) (p # ps) = (c = p \<and> startswith cs ps)"

text \<open>\<^verbatim>\<open>sub in text\<close> on strings: \<open>sub\<close> occurs somewhere in \<open>text\<close>.\<close>

fun str_in :: "string \<Rightarrow> string \<Rightarrow> bool" where
  "str_in sub [] = (sub = [])"
| "str_in sub (c # cs) = (startswith (c # cs) sub \<or> str_in sub cs)"

text \<open>\<^verbatim>\<open>s.replace(old, new)\<close> for single characters \<open>old\<close> and \<open>new\<close>.\<close>

definition replace_char :: "char \<Rightarrow> char \<Rightarrow> string \<Rightarrow> string" where
  "replace_char old new s = map (\<lambda>c. if c = old then new else c) s"

subsection \<open>Dictionaries, \<^verbatim>\<open>max\<close> and \<^verbatim>\<open>sorted\<close>\<close>

datatype py_error = ValueError | KeyError

text \<open>\<^verbatim>\<open>d.get(k)\<close>: the value stored under \<open>k\<close>, or \<open>None\<close>.\<close>

definition dict_get :: "('k \<times> 'v) list \<Rightarrow> 'k \<Rightarrow> 'v option" where
  "dict_get d k = map_of d k"

text \<open>
  The loop of \<^verbatim>\<open>max(d, key=d.get)\<close>: the candidate is replaced only by an entry whose
  value is strictly greater, so the first entry with the greatest value is kept.
  The keys iterated are the dict's own, so \<^verbatim>\<open>d.get\<close> of a key is the value stored
  beside it.
\<close>

fun max_loop :: "('k \<times> rat) \<Rightarrow> ('k \<times> rat) list \<Rightarrow> ('k \<times> rat)" where
  "max_loop best [] = best"
| "max_loop best (x # xs) = (if snd best < snd x then max_loop x xs else max_loop best xs)"

text \<open>\<^verbatim>\<open>max(d, key=d.get)\<close>; \<^verbatim>\<open>max\<close> of an empty iterable raises \<^verbatim>\<open>ValueError\<close>.\<close>

definition py_max_key :: "('k \<times> rat) list \<Rightarrow> py_error + 'k" where
  "py_max_key d = (case d of [] \<Rightarrow> Inl ValueError | x # xs \<Rightarrow> Inr (fst (max_loop x xs)))"

text \<open>
  \<^verbatim>\<open>sorted(items, key=lambda x: x[1], reverse=True)\<close>. Python's sort is stable, also
  with \<^verbatim>\<open>reverse=True\<close>: the result descends by value and entries of equal value keep
  the order they had in \<open>items\<close>. An entry is therefore placed in front of the first
  entry, among those that followed it, whose value is not greater than its own.
\<close>

fun insert_desc :: "('k \<times> rat) \<Rightarrow> ('k \<times> rat) list \<Rightarrow> ('k \<times> rat) list" where
  "insert_desc x [] = [x]"
| "insert_desc x (y # ys) = (if snd y \<le> snd x then x # y # ys else y # insert_desc x ys)"

fun sorted_desc :: "('k \<times> rat) list \<Rightarrow> ('k \<times> rat) list" where
  "sorted_desc [] = []"
| "sorted_desc (x # xs) = insert_desc x (sorted_desc xs)"

text \<open>\<^verbatim>\<open>xs.index(x)\<close>: the first position of \<open>x\<close>, or \<open>None\<close> where Python raises.\<close>

fun index_of :: "'a list \<Rightarrow> 'a \<Rightarrow> nat option" where
  "index_of [] x = None"
| "index_of (y # ys) x = (if y = x then Some 0 else map_option Suc (index_of ys x))"

subsection \<open>MockDocumentProcessor\<close>

definition departments :: "string list" where
  "departments =
     [''Engineering Drawings'', ''Legal Opinions'', ''Finance'', ''HR Policies'',
      ''Safety Circulars'', ''Board Meeting Minutes'', ''Maintenance Job Cards'',
      ''Incident Reports'', ''Vendor Invoices'', ''Purchase Order Correspondence'',
      ''Regulatory Directives'']"

definition priorities :: "string list" where
  "priorities = [''high'', ''medium'', ''low'']"

text \<open>The dict \<^verbatim>\<open>dept_scores\<close> built by \<^verbatim>\<open>classify_department\<close>, in the order written.\<close>

definition dept_scores :: "string \<Rightarrow> (string \<times> rat) list" where
  "dept_scores text =
     (let text_lower = lower text in
      [(''Engineering Drawings'', if str_in ''engineering'' text_lower then 0.85 else 0.30),
       (''Legal Opinions'', if str_in ''legal'' text_lower then 0.80 else 0.25),
       (''Finance'', if str_in ''finance'' text_lower then 0.75 else 0.35),
       (''HR Policies'', if str_in ''hr'' text_lower then 0.70 else 0.28),
       (''Safety Circulars'', if str_in ''safety'' text_lower then 0.90 else 0.40),
       (''Board Meeting Minutes'', if str_in ''board'' text_lower then 0.85 else 0.32),
       (''Maintenance Job Cards'', if str_in ''maintenance'' text_lower then 0.65 else 0.22),
       (''Incident Reports'', if str_in ''incident'' text_lower then 0.75 else 0.26),
       (''Vendor Invoices'', if str_in ''vendor'' text_lower then 0.70 else 0.24),
       (''Purchase Order Correspondence'', if str_in ''purchase'' text_lower then 0.68 else 0.20),
       (''Regulatory Directives'', if str_in ''regulatory'' text_lower then 0.72 else 0.18)])"

text \<open>
  \<^verbatim>\<open>classify_department\<close> returns the primary department, its score and the dict.
  \<^verbatim>\<open>dept_scores[primary_dept]\<close> raises \<^verbatim>\<open>KeyError\<close> on a missing key.
\<close>

definition classify_department :: "string \<Rightarrow> py_error + (string \<times> rat \<times> (string \<times> rat) list)" where
  "classify_department text =
     (let d = dept_scores text in
      case py_max_key d of
        Inl e \<Rightarrow> Inl e
      | Inr primary_dept \<Rightarrow>
          (case dict_get d primary_dept of
             None \<Rightarrow> Inl KeyError
           | Some s \<Rightarrow> Inr (primary_dept, s, d)))"

text \<open>\<^verbatim>\<open>classify_priority\<close> returns the two-element list of level and confidence.\<close>

definition classify_priority :: "string \<Rightarrow> string \<times> rat" where
  "classify_priority text =
     (let text_lower = lower text in
      if str_in ''urgent'' text_lower then (''High'', 0.9)
      else if str_in ''important'' text_lower then (''Medium'', 0.7)
      else (''Low'', 0.6))"

type_synonym summaries = "(string \<times> (string \<times> string) list) list"

definition generate_summary :: "string \<Rightarrow> summaries" where
  "generate_summary text =
     [(''Engineering Drawings'', [(''detailed'', ''Technical specifications and engineering requirements document'')]),
      (''Legal Opinions'', [(''detailed'', ''Legal analysis and compliance documentation'')]),
      (''Finance'', [(''detailed'', ''Financial analysis and budget planning document'')]),
      (''HR Policies'', [(''detailed'', ''Human resources policies and procedures'')]),
      (''Safety Circulars'', [(''detailed'', ''Safety protocols and emergency procedures'')]),
      (''Board Meeting Minutes'', [(''detailed'', ''Board meeting discussions and resolutions'')]),
      (''Maintenance Job Cards'', [(''detailed'', ''Equipment maintenance and service records'')]),
      (''Incident Reports'', [(''detailed'', ''Incident documentation and investigation reports'')]),
      (''Vendor Invoices'', [(''detailed'', ''Vendor payment and invoice processing'')]),
      (''Purchase Order Correspondence'', [(''detailed'', ''Purchase order and procurement communications'')]),
      (''Regulatory Directives'', [(''detailed'', ''Regulatory compliance and directive documentation'')])]"

subsection \<open>The table built by main\<close>

text \<open>Python's \<^verbatim>\<open>str(n)\<close> for a natural number: its decimal digits.\<close>

definition digit_char :: "nat \<Rightarrow> char" where
  "digit_char d = ''0123456789'' ! (d mod 10)"

fun str_nat :: "nat \<Rightarrow> string" where
  "str_nat n = (if n < 10 then [digit_char n] else str_nat (n div 10) @ [digit_char n])"

declare str_nat.simps [simp del]

text \<open>
  \<^verbatim>\<open>f"{score:.2%}"\<close>: the score as a percentage with two decimals. The model rounds
  the exact value; the scores that \<^verbatim>\<open>main\<close> formats are the constants of
  \<^verbatim>\<open>classify_department\<close>, whole hundredths between 0 and 1, which Python prints
  with the decimals \<^verbatim>\<open>.00\<close> as the model does.
\<close>

definition format_percent :: "rat \<Rightarrow> string" where
  "format_percent score =
     (let n = nat \<lfloor>score * 10000 + 1 / 2\<rfloor> in
      str_nat (n div 100) @ ''.'' @ [digit_char (n div 10), digit_char n] @ ''%'')"

text \<open>One row of \<^verbatim>\<open>table_data\<close>; the fields are the keys of the row's dict.\<close>

record table_row =
  sr_no :: nat
  department_name :: string
  relevance_score :: string
  summary :: string
  download_link :: string

text \<open>\<^verbatim>\<open>summaries.get(dept_name, {}).get('detailed', 'No summary available')\<close>\<close>

definition dept_summary :: "summaries \<Rightarrow> string \<Rightarrow> string" where
  "dept_summary summaries dept_name =
     (let entry = (case dict_get summaries dept_name of None \<Rightarrow> [] | Some e \<Rightarrow> e) in
      case dict_get entry ''detailed'' of
        None \<Rightarrow> ''No summary available''
      | Some s \<Rightarrow> s)"

text \<open>\<^verbatim>\<open>f"#{dept_name.replace(' ', '_')}"\<close>\<close>

definition download_url :: "string \<Rightarrow> string" where
  "download_url dept_name = ''#'' @ replace_char (CHR '' '') (CHR ''_'') dept_name"

text \<open>\<^verbatim>\<open>sorted_depts\<close>: the items of the score dict, by score descending.\<close>

definition sorted_depts :: "(string \<times> rat) list \<Rightarrow> (string \<times> rat) list" where
  "sorted_depts all_dept_scores = sorted_desc all_dept_scores"

text \<open>The loop over \<^verbatim>\<open>enumerate(sorted_depts, 1)\<close> that appends one row per entry.\<close>

definition table_data :: "(string \<times> rat) list \<Rightarrow> summaries \<Rightarrow> table_row list" where
  "table_data all_dept_scores summaries =
     map (\<lambda>(i, (dept_name, score)).
            \<lparr>sr_no = i,
             department_name = dept_name,
             relevance_score = format_percent score,
             summary = dept_summary summaries dept_name,
             download_link = download_url dept_name\<rparr>)
         (enumerate 1 (sorted_depts all_dept_scores))"

text \<open>
  What \<^verbatim>\<open>main\<close> computes from the extracted text: the classifier's results, the
  priority, the summaries and the table.
\<close>

record processed =
  primary_department :: string
  primary_confidence :: rat
  all_dept_scores :: "(string \<times> rat) list"
  priority :: "string \<times> rat"
  table :: "table_row list"

definition main_process :: "string \<Rightarrow> py_error + processed" where
  "main_process extracted_text =
     (case classify_department extracted_text of
        Inl e \<Rightarrow> Inl e
      | Inr (primary, confidence, scores) \<Rightarrow>
          Inr \<lparr>primary_department = primary,
               primary_confidence = confidence,
               all_dept_scores = scores,
               priority = classify_priority extracted_text,
               table = table_data scores (generate_summary extracted_text)\<rparr>)"

subsection \<open>The shared processor object\<close>

text \<open>
  \<^verbatim>\<open>MockDocumentProcessor.__init__\<close> sets the two attributes of a new processor.
\<close>

record processor =
  self_departments :: "string list"
  self_priorities :: "string list"

definition new_processor :: processor where
  "new_processor = \<lparr>self_departments = departments, self_priorities = priorities\<rparr>"

text \<open>
  \<^verbatim>\<open>get_processor\<close> is decorated with \<^verbatim>\<open>st.cache_resource\<close>: its first call builds
  the processor and stores it, every later call returns the stored object. The cache is
  \<open>None\<close> before the first call. Every run of \<^verbatim>\<open>main\<close> therefore works on one and the
  same object, and what a run did to it the next run would see.
\<close>

type_synonym cache = "processor option"

definition get_processor :: "cache \<Rightarrow> processor \<times> cache" where
  "get_processor c =
     (case c of
        None \<Rightarrow> (new_processor, Some new_processor)
      | Some p \<Rightarrow> (p, Some p))"

text \<open>
  The three methods as calls on the object \<open>self\<close>: each returns its result and the
  object as the call leaves it. None of them assigns to an attribute of \<open>self\<close> or
  reads one.
\<close>

definition classify_department_on ::
  "processor \<Rightarrow> string \<Rightarrow> (py_error + (string \<times> rat \<times> (string \<times> rat) list)) \<times> processor" where
  "classify_department_on self text = (classify_department text, self)"

definition classify_priority_on :: "processor \<Rightarrow> string \<Rightarrow> (string \<times> rat) \<times> processor" where
  "classify_priority_on self text = (classify_priority text, self)"

definition generate_summary_on :: "processor \<Rightarrow> string \<Rightarrow> summaries \<times> processor" where
  "generate_summary_on self text = (generate_summary text, self)"

text \<open>
  One run of \<^verbatim>\<open>main\<close> on an extracted text, from a given state of the cache: it fetches
  the processor, calls the three methods on it in turn and builds the table. The cache
  holds the object itself, so after the run it holds the object as the calls left it.
  An exception ends the run where it is raised.
\<close>

definition main_run :: "cache \<Rightarrow> string \<Rightarrow> (py_error + processed) \<times> cache" where
  "main_run c extracted_text =
     (let (processor, c0) = get_processor c;
          (classified, processor1) = classify_department_on processor extracted_text
      in case classified of
           Inl e \<Rightarrow> (Inl e, Some processor1)
         | Inr (primary, confidence, scores) \<Rightarrow>
             (let (prio, processor2) = classify_priority_on processor1 extracted_text;
                  (summaries, processor3) = generate_summary_on processor2 extracted_text
              in (Inr \<lparr>primary_department = primary,
                       primary_confidence = confidence,
                       all_dept_scores = scores,
                       priority = prio,
                       table = table_data scores summaries\<rparr>,
                  Some processor3)))"

subsection \<open>Notions used to state the properties\<close>

text \<open>
  \<open>index_less xs a b\<close>: both \<open>a\<close> and \<open>b\<close> occur in \<open>xs\<close>, and \<open>a\<close> occurs at a
  strictly lower index. With \<open>xs\<close> the list \<open>departments\<close> this compares canonical
  catalog indices; with \<open>priorities\<close> it compares priority levels, highest first.
\<close>

definition index_less :: "'a list \<Rightarrow> 'a \<Rightarrow> 'a \<Rightarrow> bool" where
  "index_less xs a b =
     (case (index_of xs a, index_of xs b) of (Some m, Some n) \<Rightarrow> m < n | _ \<Rightarrow> False)"

text \<open>
  \<open>ranks_before lt a b\<close>: entry \<open>a\<close> belongs above entry \<open>b\<close> in a ranking by score
  descending whose ties are ordered by \<open>lt\<close> on the keys.
\<close>

definition ranks_before :: "('k \<Rightarrow> 'k \<Rightarrow> bool) \<Rightarrow> ('k \<times> rat) \<Rightarrow> ('k \<times> rat) \<Rightarrow> bool" where
  "ranks_before lt a b = (snd b < snd a \<or> (snd a = snd b \<and> lt (fst a) (fst b)))"

section \<open>Properties of the helpers\<close>

subsection \<open>The substring test\<close>

lemma startswith_iff: "startswith text sub \<longleftrightarrow> (\<exists>post. text = sub @ post)"
  by (induction "text" sub rule: startswith.induct) auto

lemma str_in_iff: "str_in sub text \<longleftrightarrow> (\<exists>pre post. text = pre @ sub @ post)"
proof (induction "text")
  case Nil
  then show ?case by auto
next
  case (Cons c cs)
  show ?case
  proof
    assume "str_in sub (c # cs)"
    then consider "startswith (c # cs) sub" | "str_in sub cs" by auto
    then show "\<exists>pre post. c # cs = pre @ sub @ post"
    proof cases
      case 1
      then obtain post where "c # cs = sub @ post" using startswith_iff by blast
      then have "c # cs = [] @ sub @ post" by simp
      then show ?thesis by blast
    next
      case 2
      then obtain pre post where "cs = pre @ sub @ post" using Cons.IH by blast
      then have "c # cs = (c # pre) @ sub @ post" by simp
      then show ?thesis by blast
    qed
  next
    assume "\<exists>pre post. c # cs = pre @ sub @ post"
    then obtain pre post where e: "c # cs = pre @ sub @ post" by blast
    show "str_in sub (c # cs)"
    proof (cases pre)
      case Nil
      with e have "startswith (c # cs) sub" using startswith_iff by auto
      then show ?thesis by simp
    next
      case (Cons p ps)
      with e have "cs = ps @ sub @ post" by simp
      then have "str_in sub cs" using Cons.IH by blast
      then show ?thesis by simp
    qed
  qed
qed

subsection \<open>The stable descending sort\<close>

lemma set_insert_desc: "set (insert_desc x ys) = insert x (set ys)"
  by (induction ys) auto

lemma set_sorted_desc: "set (sorted_desc xs) = set xs"
  by (induction xs) (auto simp: set_insert_desc)

lemma length_insert_desc: "length (insert_desc x ys) = Suc (length ys)"
  by (induction ys) auto

lemma length_sorted_desc: "length (sorted_desc xs) = length xs"
  by (induction xs) (auto simp: length_insert_desc)

lemma distinct_insert_desc:
  "distinct (map fst (insert_desc x ys)) \<longleftrightarrow> fst x \<notin> fst ` set ys \<and> distinct (map fst ys)"
  by (induction ys) (auto simp: set_insert_desc)

lemma distinct_sorted_desc: "distinct (map fst (sorted_desc xs)) \<longleftrightarrow> distinct (map fst xs)"
  by (induction xs) (auto simp: distinct_insert_desc set_sorted_desc)

lemma ranks_before_insert_desc:
  assumes "sorted_wrt (ranks_before lt) ys" and "\<forall>y\<in>set ys. lt (fst x) (fst y)"
  shows "sorted_wrt (ranks_before lt) (insert_desc x ys)"
  using assms
proof (induction ys)
  case Nil
  then show ?case by simp
next
  case (Cons y ys)
  show ?case
  proof (cases "snd y \<le> snd x")
    case True
    have "ranks_before lt x z" if "z \<in> set (y # ys)" for z
    proof -
      have "snd z \<le> snd y"
        using that Cons.prems(1) by (auto simp: ranks_before_def)
      with True have "snd z \<le> snd x" by simp
      moreover have "lt (fst x) (fst z)" using that Cons.prems(2) by blast
      ultimately show ?thesis by (auto simp: ranks_before_def)
    qed
    with True Cons.prems(1) show ?thesis by simp
  next
    case False
    then have "ranks_before lt y x" by (simp add: ranks_before_def)
    moreover have "sorted_wrt (ranks_before lt) (insert_desc x ys)"
      using Cons by simp
    ultimately show ?thesis
      using False Cons.prems(1) by (auto simp: set_insert_desc)
  qed
qed

lemma ranks_before_sorted_desc:
  "sorted_wrt (\<lambda>a b. lt (fst a) (fst b)) xs \<Longrightarrow> sorted_wrt (ranks_before lt) (sorted_desc xs)"
proof (induction xs)
  case Nil
  then show ?case by simp
next
  case (Cons x xs)
  then have "sorted_wrt (ranks_before lt) (sorted_desc xs)" by simp
  moreover have "\<forall>y\<in>set (sorted_desc xs). lt (fst x) (fst y)"
    using Cons.prems by (simp add: set_sorted_desc)
  ultimately show ?case by (simp add: ranks_before_insert_desc)
qed

lemma hd_sorted_desc_ranks_first:
  assumes "sorted_wrt (ranks_before lt) (sorted_desc d)" and "x \<in> set d"
  shows "x = hd (sorted_desc d) \<or> ranks_before lt (hd (sorted_desc d)) x"
proof -
  have "x \<in> set (sorted_desc d)" using assms(2) by (simp add: set_sorted_desc)
  then show ?thesis using assms(1) by (cases "sorted_desc d") auto
qed

subsection \<open>\<^verbatim>\<open>max\<close> picks the head of the sorted list\<close>

lemma max_loop_ge: "snd best \<le> snd (max_loop best xs)"
  by (induction xs arbitrary: best) (auto intro: order_trans less_imp_le)

lemma max_loop_Cons:
  "max_loop best (x # xs) = (let m = max_loop x xs in if snd best < snd m then m else best)"
proof (induction xs arbitrary: best x)
  case Nil
  then show ?case by simp
next
  case (Cons y ys)
  let ?m = "max_loop y ys"
  show ?case
  proof (cases "snd best < snd x")
    case True
    then have "snd best < snd (max_loop x (y # ys))"
      using max_loop_ge [of x "y # ys"] by simp
    with True show ?thesis by (simp add: Let_def)
  next
    case False
    have a: "max_loop best (y # ys) = (if snd best < snd ?m then ?m else best)"
      using Cons.IH [of best y] by (simp add: Let_def)
    have b: "max_loop x (y # ys) = (if snd x < snd ?m then ?m else x)"
      using Cons.IH [of x y] by (simp add: Let_def)
    have "max_loop best (x # y # ys) = max_loop best (y # ys)" using False by simp
    with a b False show ?thesis by (auto simp: Let_def simp del: max_loop.simps)
  qed
qed

lemma sorted_desc_max_loop: "sorted_desc (x # xs) \<noteq> [] \<and> hd (sorted_desc (x # xs)) = max_loop x xs"
proof (induction xs arbitrary: x)
  case Nil
  then show ?case by simp
next
  case (Cons y ys)
  obtain m rest where s: "sorted_desc (y # ys) = m # rest" and m: "m = max_loop y ys"
    using Cons.IH [of y] by (cases "sorted_desc (y # ys)") auto
  have "sorted_desc (x # y # ys) = insert_desc x (m # rest)" using s by simp
  then have "hd (sorted_desc (x # y # ys)) = (if snd m \<le> snd x then x else m)"
    and "sorted_desc (x # y # ys) \<noteq> []" by auto
  moreover have "max_loop x (y # ys) = (if snd x < snd m then m else x)"
    using max_loop_Cons [of x y ys] m by (simp add: Let_def)
  ultimately show ?case by auto
qed

subsection \<open>The catalog\<close>

lemma index_of_Some_iff: "(\<exists>n. index_of xs x = Some n) \<longleftrightarrow> x \<in> set xs"
  by (induction xs) auto

lemma map_fst_dept_scores: "map fst (dept_scores text) = departments"
  by (simp add: dept_scores_def departments_def Let_def)

lemma departments_index_sorted: "sorted_wrt (index_less departments) departments"
  by (simp add: departments_def index_less_def)

lemma distinct_departments: "distinct departments"
  by (simp add: departments_def)

lemma length_departments: "length departments = 11"
  by (simp add: departments_def)

lemma length_dept_scores: "length (dept_scores t) = length departments"
  using map_fst_dept_scores [of t] by (metis length_map)

lemma dept_scores_ranked:
  "sorted_wrt (ranks_before (index_less departments)) (sorted_desc (dept_scores t))"
proof -
  have "sorted_wrt (index_less departments) (map fst (dept_scores t))"
    by (simp only: map_fst_dept_scores departments_index_sorted)
  then have "sorted_wrt (\<lambda>a b. index_less departments (fst a) (fst b)) (dept_scores t)"
    by (simp add: sorted_wrt_map)
  then show ?thesis by (rule ranks_before_sorted_desc)
qed

lemma py_max_key_sorted_desc:
  assumes "d \<noteq> []" and "distinct (map fst d)"
  shows "py_max_key d = Inr (fst (hd (sorted_desc d)))"
    and "dict_get d (fst (hd (sorted_desc d))) = Some (snd (hd (sorted_desc d)))"
proof -
  obtain x xs where d: "d = x # xs" using assms(1) by (cases d) auto
  have h: "sorted_desc d \<noteq> [] \<and> hd (sorted_desc d) = max_loop x xs"
    unfolding d by (rule sorted_desc_max_loop)
  show "py_max_key d = Inr (fst (hd (sorted_desc d)))"
    using h by (simp add: py_max_key_def d)
  have "hd (sorted_desc d) \<in> set (sorted_desc d)" using h hd_in_set by blast
  then have "hd (sorted_desc d) \<in> set d" by (simp add: set_sorted_desc)
  then have "(fst (hd (sorted_desc d)), snd (hd (sorted_desc d))) \<in> set d" by simp
  then show "dict_get d (fst (hd (sorted_desc d))) = Some (snd (hd (sorted_desc d)))"
    using assms(2) unfolding dict_get_def by (rule_tac map_of_is_SomeI)
qed

lemma classify_department_eq:
  "classify_department t =
     Inr (fst (hd (sorted_desc (dept_scores t))), snd (hd (sorted_desc (dept_scores t))),
          dept_scores t)"
proof -
  have ne: "dept_scores t \<noteq> []"
    using length_dept_scores [of t] length_departments by auto
  have di: "distinct (map fst (dept_scores t))"
    by (simp only: map_fst_dept_scores distinct_departments)
  show ?thesis
    using py_max_key_sorted_desc [OF ne di] by (simp add: classify_department_def Let_def)
qed

lemma main_process_eq:
  "main_process t =
     Inr \<lparr>primary_department = fst (hd (sorted_desc (dept_scores t))),
          primary_confidence = snd (hd (sorted_desc (dept_scores t))),
          all_dept_scores = dept_scores t,
          priority = classify_priority t,
          table = table_data (dept_scores t) (generate_summary t)\<rparr>"
  by (simp add: main_process_def classify_department_eq)

text \<open>A run returns what \<open>main_process\<close> computes and leaves the processor it used in the cache.\<close>

lemma main_run_eq:
  "main_run c t = (main_process t, Some (case c of None \<Rightarrow> new_processor | Some p \<Rightarrow> p))"
  by (simp add: main_run_def get_processor_def classify_department_on_def
      classify_priority_on_def generate_summary_on_def main_process_def classify_department_eq
      split: option.splits)

lemma dept_scores_bounds: "list_all (\<lambda>(d, s). 0 \<le> s \<and> s \<le> 1) (dept_scores t)"
  by (simp add: dept_scores_def Let_def)

subsection \<open>The table\<close>

lemma length_table_data: "length (table_data scores summaries) = length scores"
  by (simp add: table_data_def sorted_depts_def length_sorted_desc)

lemma nth_table_data:
  assumes "i < length scores"
  shows "table_data scores summaries ! i =
     \<lparr>sr_no = Suc i,
      department_name = fst (sorted_depts scores ! i),
      relevance_score = format_percent (snd (sorted_depts scores ! i)),
      summary = dept_summary summaries (fst (sorted_depts scores ! i)),
      download_link = download_url (fst (sorted_depts scores ! i))\<rparr>"
proof -
  have "i < length (sorted_depts scores)"
    using assms by (simp add: sorted_depts_def length_sorted_desc)
  then show ?thesis
    by (simp add: table_data_def nth_enumerate_eq split: prod.splits)
qed

lemma map_department_name_table_data:
  "map department_name (table_data scores summaries) = map fst (sorted_depts scores)"
  by (rule nth_equalityI)
     (simp_all add: length_table_data nth_table_data sorted_depts_def length_sorted_desc)

lemma map_sr_no_table_data:
  "map sr_no (table_data scores summaries) = [1..<Suc (length scores)]"
proof -
  have "map sr_no (table_data scores summaries) = map fst (enumerate 1 (sorted_depts scores))"
    unfolding table_data_def by (simp add: case_prod_unfold comp_def del: map_fst_enumerate)
  then show ?thesis
    by (simp add: sorted_depts_def length_sorted_desc)
qed

lemma dept_summary_fallback:
  assumes "dict_get summaries d = None
     \<or> (\<exists>e. dict_get summaries d = Some e \<and> dict_get e ''detailed'' = None)"
  shows "dept_summary summaries d = ''No summary available''"
  using assms by (auto simp: dept_summary_def dict_get_def)

lemma table_data_row_of_department:
  assumes "d \<in> fst ` set scores"
  shows "\<exists>row \<in> set (table_data scores summaries).
           department_name row = d \<and> summary row = dept_summary summaries d
           \<and> download_link row = download_url d"
proof -
  have "d \<in> fst ` set (sorted_depts scores)"
    using assms by (simp add: sorted_depts_def set_sorted_desc)
  then obtain x where "x \<in> set (sorted_depts scores)" and x: "fst x = d" by auto
  then obtain i where i: "i < length (sorted_depts scores)" and "sorted_depts scores ! i = x"
    by (auto simp: in_set_conv_nth)
  then have d: "fst (sorted_depts scores ! i) = d" using x by simp
  have il: "i < length scores" using i by (simp add: sorted_depts_def length_sorted_desc)
  then have "table_data scores summaries ! i \<in> set (table_data scores summaries)"
    by (simp add: length_table_data)
  moreover have "department_name (table_data scores summaries ! i) = d"
    "summary (table_data scores summaries ! i) = dept_summary summaries d"
    "download_link (table_data scores summaries ! i) = download_url d"
    using il d by (simp_all add: nth_table_data)
  ultimately show ?thesis by blast
qed

lemma download_url_departments:
  "map download_url departments =
     [''#Engineering_Drawings'', ''#Legal_Opinions'', ''#Finance'', ''#HR_Policies'',
      ''#Safety_Circulars'', ''#Board_Meeting_Minutes'', ''#Maintenance_Job_Cards'',
      ''#Incident_Reports'', ''#Vendor_Invoices'', ''#Purchase_Order_Correspondence'',
      ''#Regulatory_Directives'']"
  by (simp add: departments_def download_url_def replace_char_def)

lemma map_download_link_table_data:
  "map download_link (table_data scores summaries)
     = map download_url (map department_name (table_data scores summaries))"
  by (rule nth_equalityI) (simp_all add: length_table_data nth_table_data)

subsection \<open>Two departments tied at the top\<close>

text \<open>The text \<^verbatim>\<open>engineering board\<close> scores 0.85 for two departments.\<close>

lemma dept_scores_engineering_board:
  "dept_scores ''engineering board'' =
     [(''Engineering Drawings'', 0.85), (''Legal Opinions'', 0.25), (''Finance'', 0.35),
      (''HR Policies'', 0.28), (''Safety Circulars'', 0.40), (''Board Meeting Minutes'', 0.85),
      (''Maintenance Job Cards'', 0.22), (''Incident Reports'', 0.26), (''Vendor Invoices'', 0.24),
      (''Purchase Order Correspondence'', 0.20), (''Regulatory Directives'', 0.18)]"
  by (simp add: dept_scores_def lower_def lower_char_def)

lemma sorted_engineering_board:
  "sorted_desc (dept_scores ''engineering board'') =
     [(''Engineering Drawings'', 0.85), (''Board Meeting Minutes'', 0.85),
      (''Safety Circulars'', 0.40), (''Finance'', 0.35), (''HR Policies'', 0.28),
      (''Incident Reports'', 0.26), (''Legal Opinions'', 0.25), (''Vendor Invoices'', 0.24),
      (''Maintenance Job Cards'', 0.22), (''Purchase Order Correspondence'', 0.20),
      (''Regulatory Directives'', 0.18)]"
  by (simp add: dept_scores_engineering_board)

section \<open>The claims\<close>

text \<open>
  A text "contains a word" when the word occurs in it in any letter case: that is the
  test the classifiers make, on the lower-cased text.
\<close>

subsection \<open>The priority classifier\<close>

text \<open>
  Claim C3, as stated: a text that contains both 'urgent' and 'important' gets the
  lowest level, Low. It fails on the text \<^verbatim>\<open>urgent important\<close>, which contains both
  words and is not classified Low.
\<close>

theorem both_words_not_low:
  "str_in ''urgent'' (lower ''urgent important'')
   \<and> str_in ''important'' (lower ''urgent important'')
   \<and> fst (classify_priority ''urgent important'') \<noteq> ''Low''"
  by (simp add: classify_priority_def lower_def lower_char_def)

text \<open>
  Claim C3, amended: every text that contains both 'urgent' and 'important' is classified
  High with confidence 0.9, because the test for 'urgent' comes first.
\<close>

theorem urgent_wins_over_important:
  assumes "str_in ''urgent'' (lower t)" and "str_in ''important'' (lower t)"
  shows "classify_priority t = (''High'', 0.9)"
  using assms by (simp add: classify_priority_def)

theorem urgent_wins_over_important_witness:
  "str_in ''urgent'' (lower ''An URGENT and important notice'')
   \<and> str_in ''important'' (lower ''An URGENT and important notice'')
   \<and> classify_priority ''An URGENT and important notice'' = (''High'', 0.9)"
proof -
  have u: "str_in ''urgent'' (lower ''An URGENT and important notice'')"
    by (simp add: lower_def lower_char_def)
  have i: "str_in ''important'' (lower ''An URGENT and important notice'')"
    by (simp add: lower_def lower_char_def)
  show ?thesis using u i urgent_wins_over_important [OF u i] by simp
qed

text \<open>
  Claim C7: every text that contains 'urgent' is classified High with a confidence of
  at least 0.8; a text with 'important' and without 'urgent' is classified Medium, a
  text with neither is classified Low, and these three levels descend in that order
  in the processor's list \<open>priorities\<close>, which names the levels from highest to lowest.
\<close>

theorem priority_levels_ordered:
  assumes "str_in ''urgent'' (lower t1)"
    and "str_in ''important'' (lower t2)" and "\<not> str_in ''urgent'' (lower t2)"
    and "\<not> str_in ''urgent'' (lower t3)" and "\<not> str_in ''important'' (lower t3)"
  shows "fst (classify_priority t1) = ''High'' \<and> 0.8 \<le> snd (classify_priority t1)
     \<and> fst (classify_priority t2) = ''Medium''
     \<and> fst (classify_priority t3) = ''Low''
     \<and> index_less priorities (lower (fst (classify_priority t1))) (lower (fst (classify_priority t2)))
     \<and> index_less priorities (lower (fst (classify_priority t2))) (lower (fst (classify_priority t3)))"
  using assms
  by (simp add: classify_priority_def index_less_def priorities_def lower_def lower_char_def)

theorem priority_levels_ordered_witness:
  "fst (classify_priority ''Urgent: valve leak'') = ''High''
   \<and> 0.8 \<le> snd (classify_priority ''Urgent: valve leak'')
   \<and> fst (classify_priority ''An important memo'') = ''Medium''
   \<and> fst (classify_priority ''Lunch menu'') = ''Low''"
proof -
  have a: "str_in ''urgent'' (lower ''Urgent: valve leak'')"
    by (simp add: lower_def lower_char_def)
  have b: "str_in ''important'' (lower ''An important memo'')"
    by (simp add: lower_def lower_char_def)
  have c: "\<not> str_in ''urgent'' (lower ''An important memo'')"
    by (simp add: lower_def lower_char_def)
  have d: "\<not> str_in ''urgent'' (lower ''Lunch menu'')"
    by (simp add: lower_def lower_char_def)
  have e: "\<not> str_in ''important'' (lower ''Lunch menu'')"
    by (simp add: lower_def lower_char_def)
  show ?thesis using priority_levels_ordered [OF a b c d e] by simp
qed

subsection \<open>The ranked table\<close>

text \<open>
  Claim C1: for every input text, the rows of the table follow the score vector sorted
  by score descending (a later row never has a greater score and has a greater serial
  number), and whenever two rows have equal scores, the earlier row's department has a
  strictly lower index in the list \<open>departments\<close> than the later row's department.
\<close>

theorem ranked_table_sorted:
  assumes "main_process t = Inr r"
    and "ranked = sorted_depts (all_dept_scores r)"
    and "i < j" and "j < length (table r)"
  shows "department_name (table r ! i) = fst (ranked ! i)
     \<and> department_name (table r ! j) = fst (ranked ! j)
     \<and> sr_no (table r ! i) < sr_no (table r ! j)
     \<and> snd (ranked ! j) \<le> snd (ranked ! i)
     \<and> (snd (ranked ! i) = snd (ranked ! j)
          \<longrightarrow> index_less departments (department_name (table r ! i)) (department_name (table r ! j)))"
proof -
  have r: "all_dept_scores r = dept_scores t"
    and tb: "table r = table_data (dept_scores t) (generate_summary t)"
    using assms(1) by (auto simp: main_process_eq)
  have ranked: "ranked = sorted_desc (dept_scores t)"
    using assms(2) r by (simp add: sorted_depts_def)
  have j: "j < length (dept_scores t)" using assms(4) tb by (simp add: length_table_data)
  then have i: "i < length (dept_scores t)" using assms(3) by simp
  have ni: "department_name (table r ! i) = fst (ranked ! i)" "sr_no (table r ! i) = Suc i"
    using i by (simp_all add: tb nth_table_data ranked sorted_depts_def)
  have nj: "department_name (table r ! j) = fst (ranked ! j)" "sr_no (table r ! j) = Suc j"
    using j by (simp_all add: tb nth_table_data ranked sorted_depts_def)
  have "j < length ranked" using j by (simp add: ranked length_sorted_desc)
  then have "ranks_before (index_less departments) (ranked ! i) (ranked ! j)"
    using dept_scores_ranked [of t] assms(3) unfolding ranked
    by (simp add: sorted_wrt_iff_nth_less)
  then show ?thesis
    using ni nj assms(3) by (auto simp: ranks_before_def)
qed

theorem ranked_table_sorted_witness:
  "department_name (table_data (dept_scores ''engineering board'') (generate_summary ''engineering board'') ! 0) = ''Engineering Drawings''
   \<and> department_name (table_data (dept_scores ''engineering board'') (generate_summary ''engineering board'') ! 1) = ''Board Meeting Minutes''
   \<and> snd (sorted_depts (dept_scores ''engineering board'') ! 0) = snd (sorted_depts (dept_scores ''engineering board'') ! 1)
   \<and> index_less departments ''Engineering Drawings'' ''Board Meeting Minutes''"
proof -
  let ?t = "''engineering board''"
  let ?r = "\<lparr>primary_department = fst (hd (sorted_desc (dept_scores ?t))),
          primary_confidence = snd (hd (sorted_desc (dept_scores ?t))),
          all_dept_scores = dept_scores ?t,
          priority = classify_priority ?t,
          table = table_data (dept_scores ?t) (generate_summary ?t)\<rparr>"
  have m: "main_process ?t = Inr ?r" by (rule main_process_eq)
  have j: "1 < length (table ?r)" by (simp add: length_table_data length_dept_scores length_departments)
  have e: "snd (sorted_depts (dept_scores ?t) ! 0) = snd (sorted_depts (dept_scores ?t) ! 1)"
    by (simp add: sorted_depts_def sorted_engineering_board)
  show ?thesis
    using ranked_table_sorted [OF m refl zero_less_one j] e
    by (auto simp: sorted_depts_def sorted_engineering_board)
qed

text \<open>
  Claim C4: for every input text the run succeeds and its table is well formed: it has
  as many rows as there are departments, the departments of its rows are pairwise
  distinct and are exactly the catalog's, the serial numbers are 1 to N in order, and
  every score lies between 0 and 1.
\<close>

theorem ranked_table_well_formed:
  "\<exists>r. main_process t = Inr r
     \<and> length (table r) = length departments
     \<and> distinct (map department_name (table r))
     \<and> set (map department_name (table r)) = set departments
     \<and> map sr_no (table r) = [1..<Suc (length departments)]
     \<and> list_all (\<lambda>(d, s). 0 \<le> s \<and> s \<le> 1) (all_dept_scores r)"
proof -
  let ?tb = "table_data (dept_scores t) (generate_summary t)"
  have names: "map department_name ?tb = map fst (sorted_desc (dept_scores t))"
    by (simp add: map_department_name_table_data sorted_depts_def)
  have "distinct (map fst (dept_scores t))"
    by (simp only: map_fst_dept_scores distinct_departments)
  then have d: "distinct (map department_name ?tb)"
    by (simp only: names distinct_sorted_desc)
  have "set (map fst (sorted_desc (dept_scores t))) = set (map fst (dept_scores t))"
    by (simp add: set_sorted_desc)
  then have s: "set (map department_name ?tb) = set departments"
    by (simp only: names map_fst_dept_scores)
  have l: "length ?tb = length departments"
    by (simp add: length_table_data length_dept_scores)
  have n: "map sr_no ?tb = [1..<Suc (length departments)]"
    by (simp add: map_sr_no_table_data length_dept_scores)
  show ?thesis
    using d s l n dept_scores_bounds [of t] by (simp add: main_process_eq)
qed

subsection \<open>The primary department\<close>

text \<open>
  Claim C5: for every input text the run succeeds, and the primary department returned
  by the classifier is the department of the first row of the table, the row with serial
  number 1. No department scores higher than the primary one, and every other
  department with the same score has a strictly greater index in the list
  \<open>departments\<close>: among departments tied at the top, both \<^verbatim>\<open>max\<close> and the sort pick the
  one that comes first in the catalog.
\<close>

theorem primary_is_rank_one:
  "\<exists>r row rest. main_process t = Inr r \<and> table r = row # rest
     \<and> sr_no row = 1 \<and> department_name row = primary_department r
     \<and> list_all (\<lambda>(d, s). s \<le> primary_confidence r
              \<and> (s = primary_confidence r
                   \<longrightarrow> d = primary_department r \<or> index_less departments (primary_department r) d))
         (all_dept_scores r)"
proof -
  let ?d = "dept_scores t"
  let ?h = "hd (sorted_desc ?d)"
  let ?tb = "table_data ?d (generate_summary t)"
  have len: "0 < length ?d" by (simp add: length_dept_scores length_departments)
  then have "?tb \<noteq> []" using length_table_data [of ?d "generate_summary t"] by auto
  then obtain row rest where tb: "?tb = row # rest" by (cases ?tb) auto
  have "row = ?tb ! 0" using tb by simp
  then have row: "sr_no row = 1" "department_name row = fst (sorted_desc ?d ! 0)"
    using len by (simp_all add: nth_table_data sorted_depts_def)
  have "sorted_desc ?d \<noteq> []" using len length_sorted_desc [of ?d] by auto
  then have "sorted_desc ?d ! 0 = ?h" by (simp add: hd_conv_nth)
  then have name: "department_name row = fst ?h" using row(2) by simp
  have "\<forall>x\<in>set ?d. snd x \<le> snd ?h
          \<and> (snd x = snd ?h \<longrightarrow> fst x = fst ?h \<or> index_less departments (fst ?h) (fst x))"
  proof
    fix x assume "x \<in> set ?d"
    then have "x = ?h \<or> ranks_before (index_less departments) ?h x"
      using hd_sorted_desc_ranks_first [OF dept_scores_ranked] by blast
    then show "snd x \<le> snd ?h
          \<and> (snd x = snd ?h \<longrightarrow> fst x = fst ?h \<or> index_less departments (fst ?h) (fst x))"
      by (auto simp: ranks_before_def)
  qed
  then have "list_all (\<lambda>(d, s). s \<le> snd ?h
              \<and> (s = snd ?h \<longrightarrow> d = fst ?h \<or> index_less departments (fst ?h) d)) ?d"
    by (auto simp: list_all_iff)
  then show ?thesis using tb row(1) name by (simp add: main_process_eq)
qed

theorem primary_is_rank_one_witness:
  "\<exists>r row rest. main_process ''engineering board'' = Inr r \<and> table r = row # rest
     \<and> department_name row = ''Engineering Drawings''
     \<and> primary_department r = ''Engineering Drawings''
     \<and> primary_confidence r = 0.85
     \<and> dict_get (all_dept_scores r) ''Board Meeting Minutes'' = Some 0.85
     \<and> index_less departments ''Engineering Drawings'' ''Board Meeting Minutes''"
proof -
  obtain r row rest where m: "main_process ''engineering board'' = Inr r"
    and tb: "table r = row # rest" and n: "department_name row = primary_department r"
    using primary_is_rank_one [of "''engineering board''"] by blast
  have p: "primary_department r = ''Engineering Drawings''" "primary_confidence r = 0.85"
    "dict_get (all_dept_scores r) ''Board Meeting Minutes'' = Some 0.85"
    using m by (auto simp: main_process_eq sorted_engineering_board dept_scores_engineering_board dict_get_def)
  have "index_less departments ''Engineering Drawings'' ''Board Meeting Minutes''"
    by (simp add: index_less_def departments_def)
  then show ?thesis using m tb n p by auto
qed

subsection \<open>Determinism\<close>

text \<open>
  Claim C6: the pipeline is deterministic. For every text and every state of the
  processor cache, a run returns a result; a second run on the same text, made on the
  cache as the first run left it, returns the identical result (the same score vector,
  the same serial numbers and departments in the same order, the same primary
  department) and leaves the cache as it found it; and a run on the same text from
  any other state of the cache returns that result too.
\<close>

theorem two_runs_agree:
  assumes "main_run c t = (out1, c1)"
    and "main_run c1 t = (out2, c2)"
    and "main_run c' t = (out3, c3)"
  shows "\<exists>r1 r2. out1 = Inr r1 \<and> out2 = Inr r2
     \<and> all_dept_scores r2 = all_dept_scores r1
     \<and> map sr_no (table r2) = map sr_no (table r1)
     \<and> map department_name (table r2) = map department_name (table r1)
     \<and> primary_department r2 = primary_department r1
     \<and> r2 = r1 \<and> c2 = c1 \<and> out3 = out1"
proof -
  have o: "out1 = main_process t" "out2 = main_process t" "out3 = main_process t"
    using assms by (simp_all add: main_run_eq)
  have c1: "c1 = Some (case c of None \<Rightarrow> new_processor | Some p \<Rightarrow> p)"
    using assms(1) by (simp add: main_run_eq)
  have "c2 = Some (case c1 of None \<Rightarrow> new_processor | Some p \<Rightarrow> p)"
    using assms(2) by (simp add: main_run_eq)
  then have "c2 = c1" using c1 by simp
  then show ?thesis using o by (simp add: main_process_eq)
qed

theorem two_runs_agree_witness:
  "\<exists>r. fst (main_run None ''engineering board'') = Inr r
     \<and> fst (main_run (snd (main_run None ''engineering board'')) ''engineering board'') = Inr r
     \<and> fst (main_run (Some \<lparr>self_departments = [], self_priorities = []\<rparr>) ''engineering board'')
         = Inr r
     \<and> snd (main_run (snd (main_run None ''engineering board'')) ''engineering board'')
         = Some new_processor
     \<and> primary_department r = ''Engineering Drawings''"
proof -
  let ?t = "''engineering board''"
  let ?c' = "Some \<lparr>self_departments = [], self_priorities = []\<rparr>"
  have a: "main_run None ?t = (fst (main_run None ?t), snd (main_run None ?t))"
    by simp
  have b: "main_run (snd (main_run None ?t)) ?t
      = (fst (main_run (snd (main_run None ?t)) ?t), snd (main_run (snd (main_run None ?t)) ?t))"
    by simp
  have c: "main_run ?c' ?t = (fst (main_run ?c' ?t), snd (main_run ?c' ?t))"
    by simp
  obtain r where r: "fst (main_run None ?t) = Inr r"
    and r2: "fst (main_run (snd (main_run None ?t)) ?t) = Inr r"
    and r3: "fst (main_run ?c' ?t) = Inr r"
    and k: "snd (main_run (snd (main_run None ?t)) ?t) = snd (main_run None ?t)"
    using two_runs_agree [OF a b c] by auto
  have "snd (main_run None ?t) = Some new_processor" by (simp add: main_run_eq)
  moreover have "primary_department r = ''Engineering Drawings''"
    using r by (auto simp: main_run_eq main_process_eq sorted_engineering_board)
  ultimately show ?thesis using r r2 r3 k by (intro exI [of _ r]) simp
qed

subsection \<open>Summaries and links\<close>

text \<open>
  Claim C8: if the summary mapping has no entry for a catalog department, or its entry
  has no 'detailed' field, the table still has a row for that department, with the
  placeholder \<^verbatim>\<open>No summary available\<close> as its summary, and the table still ranks all
  N departments: it has N rows, one for each sorted entry.
\<close>

theorem missing_summary_fallback:
  assumes "d \<in> set departments"
    and "dict_get summaries d = None
     \<or> (\<exists>e. dict_get summaries d = Some e \<and> dict_get e ''detailed'' = None)"
  shows "(\<exists>row. row \<in> set (table_data (dept_scores t) summaries)
            \<and> department_name row = d \<and> summary row = ''No summary available'')
     \<and> length (table_data (dept_scores t) summaries) = length departments
     \<and> map department_name (table_data (dept_scores t) summaries)
         = map fst (sorted_depts (dept_scores t))"
proof -
  have "d \<in> fst ` set (dept_scores t)"
    using assms(1) map_fst_dept_scores [of t] by (metis set_map)
  then obtain row where "row \<in> set (table_data (dept_scores t) summaries)"
    and "department_name row = d" and "summary row = dept_summary summaries d"
    using table_data_row_of_department by blast
  then have "\<exists>row. row \<in> set (table_data (dept_scores t) summaries)
            \<and> department_name row = d \<and> summary row = ''No summary available''"
    using dept_summary_fallback [OF assms(2)] by auto
  then show ?thesis
    by (simp add: length_table_data length_dept_scores map_department_name_table_data)
qed

theorem missing_summary_fallback_witness:
  "(\<exists>row. row \<in> set (table_data (dept_scores ''finance report'') [(''Finance'', [(''brief'', ''budget'')])])
       \<and> department_name row = ''Finance'' \<and> summary row = ''No summary available'')
   \<and> (\<exists>row. row \<in> set (table_data (dept_scores ''finance report'') [(''Finance'', [(''brief'', ''budget'')])])
       \<and> department_name row = ''Legal Opinions'' \<and> summary row = ''No summary available'')
   \<and> length (table_data (dept_scores ''finance report'') [(''Finance'', [(''brief'', ''budget'')])]) = 11"
proof -
  let ?s = "[(''Finance'', [(''brief'', ''budget'')])]"
  have a: "''Finance'' \<in> set departments" and b: "''Legal Opinions'' \<in> set departments"
    by (simp_all add: departments_def)
  have c: "dict_get ?s ''Finance'' = None
     \<or> (\<exists>e. dict_get ?s ''Finance'' = Some e \<and> dict_get e ''detailed'' = None)"
    by (simp add: dict_get_def)
  have d: "dict_get ?s ''Legal Opinions'' = None
     \<or> (\<exists>e. dict_get ?s ''Legal Opinions'' = Some e \<and> dict_get e ''detailed'' = None)"
    by (simp add: dict_get_def)
  show ?thesis
    using missing_summary_fallback [OF a c, of "''finance report''"]
      missing_summary_fallback [OF b d, of "''finance report''"]
    by (simp add: length_departments)
qed

text \<open>
  Claim C9: the link of every row is \<open>download_url\<close> of the row's department label and
  of nothing else, and \<open>download_url\<close> is injective on the catalog: two distinct catalog
  labels never get the same link. The link of a catalog label consists of the leading
  \<^verbatim>\<open>#\<close>, letters and underscores only.
\<close>

theorem download_link_injective:
  "map download_link (table_data scores summaries)
     = map download_url (map department_name (table_data scores summaries))
   \<and> inj_on download_url (set departments)
   \<and> list_all (\<lambda>d. set (download_url d)
          \<subseteq> set ''#_ABCDEFGHIJKLMNOPQRSTUVWXYZabcdefghijklmnopqrstuvwxyz'') departments"
proof -
  have "distinct (map download_url departments)"
    by (simp only: download_url_departments) simp
  then have "inj_on download_url (set departments)"
    by (simp add: distinct_map)
  moreover have "list_all (\<lambda>d. set (download_url d)
          \<subseteq> set ''#_ABCDEFGHIJKLMNOPQRSTUVWXYZabcdefghijklmnopqrstuvwxyz'') departments"
    by (simp add: departments_def download_url_def replace_char_def)
  ultimately show ?thesis by (simp add: map_download_link_table_data)
qed

text \<open>
  Claim C10: the summary generator ignores its argument: for any two texts it returns
  the same mapping, whose keys are the eleven catalog departments in catalog order,
  each with the single field 'detailed'; so the summaries in the table are the same
  whatever document was processed.
\<close>

theorem generate_summary_ignores_text:
  "generate_summary t1 = generate_summary t2
   \<and> map fst (generate_summary t1) = departments
   \<and> length (generate_summary t1) = 11
   \<and> list_all (\<lambda>(d, e). map fst e = [''detailed'']) (generate_summary t1)
   \<and> map summary (table_data scores (generate_summary t1))
       = map summary (table_data scores (generate_summary t2))"
  by (simp add: generate_summary_def departments_def)

subsection \<open>The empty text\<close>

text \<open>
  Claim C2, as stated: for the empty text the scores are all equal, the primary
  department is the first catalog entry, and the priority is Low. On the empty text the
  scores of 'Engineering Drawings' and 'Safety Circulars' differ (0.30 and 0.40), and
  the primary department is 'Safety Circulars', not the first catalog entry
  'Engineering Drawings'.
\<close>

theorem empty_text_not_uniform:
  "dict_get (dept_scores '''') ''Engineering Drawings''
     \<noteq> dict_get (dept_scores '''') ''Safety Circulars''
   \<and> dict_get (dept_scores '''') ''Engineering Drawings'' = Some 0.30
   \<and> dict_get (dept_scores '''') ''Safety Circulars'' = Some 0.40
   \<and> classify_department '''' = Inr (''Safety Circulars'', 0.40, dept_scores '''')
   \<and> departments ! 0 = ''Engineering Drawings''
   \<and> ''Safety Circulars'' \<noteq> departments ! 0"
  by (simp add: classify_department_def dept_scores_def lower_def py_max_key_def dict_get_def departments_def)

text \<open>
  Claim C2, amended: for the empty text the scorer returns each department's own
  score for a text without its keyword (0.30, 0.25, 0.35, 0.28, 0.40, 0.32, 0.22, 0.26,
  0.24, 0.20, 0.18 in catalog order); the primary department is 'Safety Circulars',
  catalog index 4, with score 0.40; the priority is Low with confidence 0.6.
\<close>

theorem empty_text_baseline:
  "dept_scores '''' =
     [(''Engineering Drawings'', 0.30), (''Legal Opinions'', 0.25), (''Finance'', 0.35),
      (''HR Policies'', 0.28), (''Safety Circulars'', 0.40), (''Board Meeting Minutes'', 0.32),
      (''Maintenance Job Cards'', 0.22), (''Incident Reports'', 0.26), (''Vendor Invoices'', 0.24),
      (''Purchase Order Correspondence'', 0.20), (''Regulatory Directives'', 0.18)]
   \<and> classify_department '''' = Inr (''Safety Circulars'', 0.40, dept_scores '''')
   \<and> index_of departments ''Safety Circulars'' = Some 4
   \<and> classify_priority '''' = (''Low'', 0.6)"
  by (simp add: classify_department_def dept_scores_def lower_def py_max_key_def dict_get_def
      departments_def classify_priority_def)

end
